theory Spec2Isabelle
  imports Main
begin

section \<open>Strings and the helpers of the standard library\<close>

text \<open>
  A Go string is a sequence of bytes; it is modelled as a \<open>char list\<close>.  The loops of
  \<^verbatim>\<open>socket.go\<close> range over runes, but every character they compare with (space, the
  two quotes, the backslash) is a single byte below 0x80, which never occurs inside a
  multi-byte UTF-8 sequence, and the indices they slice at are byte indices.  Ranging
  over the bytes therefore takes the same branches at the same byte indices.
\<close>

abbreviation space :: char where "space \<equiv> CHR 0x20"
abbreviation tab :: char where "tab \<equiv> CHR 0x09"
abbreviation cr :: char where "cr \<equiv> CHR 0x0D"
abbreviation lf :: char where "lf \<equiv> CHR 0x0A"
abbreviation dquote :: char where "dquote \<equiv> CHR 0x22"
abbreviation squote :: char where "squote \<equiv> CHR 0x27"
abbreviation backslash :: char where "backslash \<equiv> CHR 0x5C"
abbreviation period :: char where "period \<equiv> CHR 0x2E"

text \<open>\<^verbatim>\<open>strings.Trim(s, cutset)\<close>: drop the leading and the trailing bytes that are in the cutset.\<close>

definition Trim :: "string \<Rightarrow> string \<Rightarrow> string" where
  "Trim s cutset = rev (dropWhile (\<lambda>c. c \<in> set cutset) (rev (dropWhile (\<lambda>c. c \<in> set cutset) s)))"

text \<open>\<^verbatim>\<open>strings.Replace(s, "\\", "", -1)\<close>: every backslash is deleted.\<close>

definition Replace_backslash :: "string \<Rightarrow> string" where
  "Replace_backslash s = filter (\<lambda>c. c \<noteq> backslash) s"

section \<open>The tokenizer\<close>

text \<open>The only error value the tokenizer makes: \<^verbatim>\<open>errors.New("bad char")\<close>.\<close>

datatype error = BadChar

definition cleanup :: "string \<Rightarrow> string" where
  "cleanup el = Trim el [space, tab, cr, lf]"

text \<open>
  \<^verbatim>\<open>consumeAtom\<close>: the loop over \<open>buf\<close> carries the index \<open>i\<close> and the characters still
  to visit; falling out of the loop returns the whole buffer.
\<close>

fun consumeAtom_loop :: "string \<Rightarrow> nat \<Rightarrow> string \<Rightarrow> error + (string \<times> string)" where
  "consumeAtom_loop buf i [] = Inr (buf, [])"
| "consumeAtom_loop buf i (el # els) =
     (if el = space then Inr (take i buf, cleanup (drop i buf))
      else consumeAtom_loop buf (Suc i) els)"

definition consumeAtom :: "string \<Rightarrow> error + (string \<times> string)" where
  "consumeAtom buf = consumeAtom_loop buf 0 buf"

text \<open>
  \<^verbatim>\<open>consumeString\<close>: \<open>quote\<close> is the byte \<^verbatim>\<open>quote[0]\<close> (the one caller passes the
  one-byte string \<^verbatim>\<open>string(leader)\<close>).  The cases of the \<^verbatim>\<open>switch\<close> are tried in the
  order of the source; an escaped closing quote and an escaped other quote leave the
  \<^verbatim>\<open>switch\<close> and reach \<^verbatim>\<open>escape = false\<close>; the backslash case skips it with
  \<^verbatim>\<open>continue\<close>.
\<close>

fun consumeString_loop :: "char \<Rightarrow> string \<Rightarrow> nat \<Rightarrow> bool \<Rightarrow> string \<Rightarrow> error + (string \<times> string)" where
  "consumeString_loop quote buf i escape [] = Inr (buf, [])"
| "consumeString_loop quote buf i escape (el # els) =
     (if el = quote then
        (if \<not> escape then Inr (Replace_backslash (take i buf), cleanup (drop (i + 1) buf))
         else consumeString_loop quote buf (Suc i) False els)
      else if el = backslash then consumeString_loop quote buf (Suc i) True els
      else if el = squote \<or> el = dquote then
        (if \<not> escape then Inl BadChar
         else consumeString_loop quote buf (Suc i) False els)
      else consumeString_loop quote buf (Suc i) False els)"

definition consumeString :: "char \<Rightarrow> string \<Rightarrow> error + (string \<times> string)" where
  "consumeString quote buf = consumeString_loop quote buf 0 False buf"

text \<open>One turn of the loop of \<^verbatim>\<open>tokenizeLine\<close> on a non-empty line: the token and the rest.\<close>

definition consume :: "string \<Rightarrow> error + (string \<times> string)" where
  "consume line =
     (let leader = hd line in
      if leader = dquote \<or> leader = squote then consumeString leader (tl line)
      else consumeAtom line)"

lemma length_dropWhile_rev_le: "length (dropWhile P (rev xs)) \<le> length xs"
  using length_dropWhile_le [of P "rev xs"] by simp

lemma length_Trim_le: "length (Trim s cutset) \<le> length s"
proof -
  have "length (Trim s cutset) \<le> length (dropWhile (\<lambda>c. c \<in> set cutset) s)"
    unfolding Trim_def by (simp add: length_dropWhile_rev_le)
  also have "\<dots> \<le> length s" by (rule length_dropWhile_le)
  finally show ?thesis .
qed

lemma length_cleanup_le: "length (cleanup s) \<le> length s"
  unfolding cleanup_def by (rule length_Trim_le)

lemma length_cleanup_space: "length (cleanup (space # s)) \<le> length s"
proof -
  have "length (cleanup (space # s)) \<le> length (dropWhile (\<lambda>c. c \<in> set [space, tab, cr, lf]) (space # s))"
    unfolding cleanup_def Trim_def by (simp only: length_rev length_dropWhile_rev_le)
  also have "\<dots> \<le> length s" by (simp add: length_dropWhile_le)
  finally show ?thesis .
qed

lemma consumeAtom_loop_shorter:
  "consumeAtom_loop (pre @ suf) (length pre) suf = Inr (tok, rest) \<Longrightarrow> pre @ suf \<noteq> []
     \<Longrightarrow> length rest < length (pre @ suf)"
proof (induction suf arbitrary: pre)
  case Nil
  then show ?case by auto
next
  case (Cons el els)
  show ?case
  proof (cases "el = space")
    case True
    with Cons.prems have "rest = cleanup (space # els)" by simp
    then show ?thesis using length_cleanup_space [of els] by simp
  next
    case False
    with Cons.prems have "consumeAtom_loop ((pre @ [el]) @ els) (length (pre @ [el])) els = Inr (tok, rest)"
      by simp
    from Cons.IH [OF this] show ?thesis by simp
  qed
qed

lemma consumeString_loop_shorter:
  "consumeString_loop q (pre @ suf) (length pre) esc suf = Inr (tok, rest)
     \<Longrightarrow> length rest \<le> length (pre @ suf)"
proof (induction suf arbitrary: pre esc)
  case Nil
  then show ?case by auto
next
  case (Cons el els)
  have step: "consumeString_loop q ((pre @ [el]) @ els) (length (pre @ [el])) e els = Inr (tok, rest)
      \<Longrightarrow> length rest \<le> length (pre @ el # els)" for e
    using Cons.IH [of "pre @ [el]" e] by simp
  show ?case
  proof (cases "el = q \<and> \<not> esc")
    case True
    with Cons.prems have "rest = cleanup els" by simp
    then show ?thesis using length_cleanup_le [of els] by simp
  next
    case False
    with Cons.prems obtain e where
      "consumeString_loop q ((pre @ [el]) @ els) (length (pre @ [el])) e els = Inr (tok, rest)"
      by (auto split: if_splits)
    then show ?thesis by (rule step)
  qed
qed

lemma consume_shorter:
  assumes "consume line = Inr (tok, rest)" and "line \<noteq> []"
  shows "length rest < length line"
proof -
  from assms(2) obtain leader buf where line: "line = leader # buf" by (cases line) auto
  show ?thesis
  proof (cases "leader = dquote \<or> leader = squote")
    case True
    with assms(1) line have "consumeString_loop leader ([] @ buf) (length ([]::string)) False buf = Inr (tok, rest)"
      by (simp add: consume_def consumeString_def)
    from consumeString_loop_shorter [OF this] show ?thesis using line by simp
  next
    case False
    with assms(1) line have "consumeAtom_loop ([] @ line) (length ([]::string)) line = Inr (tok, rest)"
      by (simp add: consume_def consumeAtom_def)
    from consumeAtom_loop_shorter [OF this] assms(2) show ?thesis by simp
  qed
qed

text \<open>
  \<^verbatim>\<open>tokenizeLine\<close>: the loop runs while the line is not empty, appending each token; an
  error returns at once (with the empty slice, which the sum leaves out).
\<close>

function tokenizeLine_loop :: "string list \<Rightarrow> string \<Rightarrow> error + string list" where
  "tokenizeLine_loop tokens line =
     (if line = [] then Inr tokens
      else (case consume line of
              Inl err \<Rightarrow> Inl err
            | Inr (token, line') \<Rightarrow> tokenizeLine_loop (tokens @ [token]) line'))"
  by pat_completeness auto
termination
  by (relation "measure (\<lambda>(tokens, line). length line)") (auto dest: consume_shorter)

declare tokenizeLine_loop.simps [simp del]

definition tokenizeLine :: "string \<Rightarrow> error + string list" where
  "tokenizeLine line = tokenizeLine_loop [] line"

section \<open>The command parser\<close>

text \<open>
  A call either returns or stops the program with a run-time panic; \<^verbatim>\<open>tokens[0]\<close> on an
  empty slice is an index out of range.
\<close>

datatype 'a outcome = Return 'a | Panic

text \<open>
  The struct \<^verbatim>\<open>Command\<close>.  Its field \<^verbatim>\<open>Params\<close> is a slice, and the type parameter says
  how the slice is given: by its elements (\<open>string list\<close>), which is what the parser
  computes, or by its backing array and length (\<open>slice\<close>, in the dispatcher), where the
  sharing of the array matters.
\<close>

record 'p Command =
  Command :: string
  Params :: 'p

text \<open>
  \<^verbatim>\<open>parseLine\<close>.  \<^verbatim>\<open>strings.ToUpper\<close> belongs to the standard library and maps through
  the Unicode tables; it is a parameter here, so every result holds for the real one.
\<close>

definition parseLine :: "(string \<Rightarrow> string) \<Rightarrow> string \<Rightarrow> (error + string list Command) outcome" where
  "parseLine ToUpper line =
     (case tokenizeLine line of
        Inl err \<Rightarrow> Return (Inl err)
      | Inr tokens \<Rightarrow>
          (case tokens of
             [] \<Rightarrow> Panic
           | t0 # ts \<Rightarrow> Return (Inr \<lparr>Command = ToUpper t0, Params = ts\<rparr>)))"

text \<open>
  On a string of ASCII bytes \<^verbatim>\<open>strings.ToUpper\<close> maps \<^verbatim>\<open>a\<close>..\<^verbatim>\<open>z\<close> to
  \<^verbatim>\<open>A\<close>..\<^verbatim>\<open>Z\<close> (it clears bit 5) and keeps every other byte; this instance serves
  for the concrete examples.
\<close>

definition upper_byte :: "char \<Rightarrow> char" where
  "upper_byte c =
     (if (97::nat) \<le> of_char c \<and> of_char c \<le> (122::nat)
      then (case c of Char b0 b1 b2 b3 b4 b5 b6 b7 \<Rightarrow> Char b0 b1 b2 b3 b4 False b6 b7)
      else c)"

definition ToUpper_ascii :: "string \<Rightarrow> string" where
  "ToUpper_ascii s = map upper_byte s"

section \<open>Notions used to state the properties of quoted tokens\<close>

text \<open>
  A body in which escaping is unambiguous: ordinary characters (neither quote, nor
  backslash) and pairs of a backslash and a character that is not a backslash.  Inside
  such a body every quote character is escaped and no backslash is.
\<close>

fun escaped_body :: "string \<Rightarrow> bool" where
  "escaped_body [] = True"
| "escaped_body (c # cs) =
     (if c = backslash then
        (case cs of [] \<Rightarrow> False | d # ds \<Rightarrow> d \<noteq> backslash \<and> escaped_body ds)
      else c \<noteq> dquote \<and> c \<noteq> squote \<and> escaped_body cs)"

text \<open>
  The scan of a quoted token as the specification words it: a backslash that is not
  itself escaped sets the escape flag for exactly one following character and is
  removed from the token; an escaped character is kept as it is; the same quote, not
  escaped, ends the token; the other quote, not escaped, is the error; the end of the
  buffer returns the buffer.  It is compared with \<open>consumeString\<close> below.
\<close>

fun spec_quoted_scan :: "char \<Rightarrow> string \<Rightarrow> bool \<Rightarrow> string \<Rightarrow> string \<Rightarrow> error + (string \<times> string)" where
  "spec_quoted_scan quote buf escape token [] = Inr (buf, [])"
| "spec_quoted_scan quote buf escape token (el # els) =
     (if escape then spec_quoted_scan quote buf False (token @ [el]) els
      else if el = backslash then spec_quoted_scan quote buf True token els
      else if el = quote then Inr (token, cleanup els)
      else if el = squote \<or> el = dquote then Inl BadChar
      else spec_quoted_scan quote buf False (token @ [el]) els)"

definition spec_quoted_token :: "char \<Rightarrow> string \<Rightarrow> error + (string \<times> string)" where
  "spec_quoted_token quote buf = spec_quoted_scan quote buf False [] buf"

text \<open>A token body in which no backslash follows a backslash.\<close>

fun no_backslash_pair :: "string \<Rightarrow> bool" where
  "no_backslash_pair [] = True"
| "no_backslash_pair [c] = True"
| "no_backslash_pair (c # d # cs) = (\<not> (c = backslash \<and> d = backslash) \<and> no_backslash_pair (d # cs))"

section \<open>The response writer\<close>

text \<open>
  The connection is a \<^verbatim>\<open>textproto.Conn\<close> of Go's standard library.  Its writer side is
  modelled by the bytes handed to it so far, in order, and by the dot writer that is
  open on it, if any (the field \<^verbatim>\<open>dot\<close> of \<^verbatim>\<open>textproto.Writer\<close>).  The source ignores
  the error results of all writes, and so does the model.
\<close>

datatype wstate = wstateBegin | wstateBeginLine | wstateCR | wstateData

record Conn =
  sent :: string
  dot :: "wstate option"

text \<open>
  \<^verbatim>\<open>dotWriter.Write\<close>, one byte at a time.  In the states \<^verbatim>\<open>wstateBegin\<close> and
  \<^verbatim>\<open>wstateBeginLine\<close> a leading dot is doubled, and the case falls through to the one of
  \<^verbatim>\<open>wstateData\<close>, where a line feed is preceded by a carriage return; after a carriage
  return (\<^verbatim>\<open>wstateCR\<close>) a line feed ends the line.  The byte itself is written last.
\<close>

definition dotWriter_data :: "string \<Rightarrow> char \<Rightarrow> wstate \<times> string" where
  "dotWriter_data pre c =
     (if c = lf then (wstateBeginLine, pre @ [cr, c])
      else if c = cr then (wstateCR, pre @ [c])
      else (wstateData, pre @ [c]))"

fun dotWriter_byte :: "wstate \<Rightarrow> char \<Rightarrow> wstate \<times> string" where
  "dotWriter_byte wstateBegin c = dotWriter_data (if c = period then [period] else []) c"
| "dotWriter_byte wstateBeginLine c = dotWriter_data (if c = period then [period] else []) c"
| "dotWriter_byte wstateData c = dotWriter_data [] c"
| "dotWriter_byte wstateCR c = (if c = lf then wstateBeginLine else wstateData, [c])"

fun dotWriter_Write :: "wstate \<Rightarrow> string \<Rightarrow> wstate \<times> string" where
  "dotWriter_Write state [] = (state, [])"
| "dotWriter_Write state (c # b) =
     (case dotWriter_byte state c of
        (state', out) \<Rightarrow> (case dotWriter_Write state' b of (state'', out') \<Rightarrow> (state'', out @ out')))"

text \<open>
  \<^verbatim>\<open>dotWriter.Close\<close>: the cases fall through, so that the line in progress is ended
  first and the line with the lone dot comes last.
\<close>

fun dotWriter_Close :: "wstate \<Rightarrow> string" where
  "dotWriter_Close wstateCR = [lf] @ [period, cr, lf]"
| "dotWriter_Close wstateBeginLine = [period, cr, lf]"
| "dotWriter_Close state = [cr] @ [lf] @ [period, cr, lf]"

definition closeDot :: "Conn \<Rightarrow> Conn" where
  "closeDot w =
     (case dot w of
        None \<Rightarrow> w
      | Some state \<Rightarrow> \<lparr>sent = sent w @ dotWriter_Close state, dot = None\<rparr>)"

text \<open>
  \<^verbatim>\<open>Writer.PrintfLine\<close> with a format that holds no verb: an open dot writer is closed,
  the text is written, then carriage return and line feed.
\<close>

definition PrintfLine :: "Conn \<Rightarrow> string \<Rightarrow> Conn" where
  "PrintfLine w line = (let w' = closeDot w in w'\<lparr>sent := sent w' @ line @ [cr, lf]\<rparr>)"

definition DotWriter :: "Conn \<Rightarrow> Conn" where
  "DotWriter w = (closeDot w)\<lparr>dot := Some wstateBegin\<rparr>"

definition Write :: "Conn \<Rightarrow> string \<Rightarrow> Conn" where
  "Write w b =
     (case dot w of
        None \<Rightarrow> w
      | Some state \<Rightarrow>
          (case dotWriter_Write state b of
             (state', out) \<Rightarrow> \<lparr>sent = sent w @ out, dot = Some state'\<rparr>))"

section \<open>The server and the session\<close>

text \<open>
  Modelled from the spec: the type \<^verbatim>\<open>Server\<close> and its method \<^verbatim>\<open>GetHandler\<close> are declared
  outside \<^verbatim>\<open>socket.go\<close>.  The server owns a name and a mapping from command verb to
  handler, and \<^verbatim>\<open>GetHandler\<close> looks the verb of the command up in it; no handler is the
  absent value.  Handlers are named by values of a type \<open>'h\<close>; what they do is given
  separately, see \<open>handlers\<close> below.
\<close>

record 'h Server =
  Name :: string
  commandHandlers :: "string \<rightharpoonup> 'h"

definition GetHandler :: "'h Server \<Rightarrow> 'p Command \<Rightarrow> 'h option" where
  "GetHandler server command = commandHandlers server (Command command)"

record 'h Session =
  MsgId :: string
  Client :: string
  Connection :: Conn
  DictServer :: "'h Server"
  Options :: "string \<rightharpoonup> bool"

text \<open>Reading a \<^verbatim>\<open>map[string]bool\<close> at a key it does not hold gives \<^verbatim>\<open>false\<close>.\<close>

definition option_value :: "(string \<rightharpoonup> bool) \<Rightarrow> string \<Rightarrow> bool" where
  "option_value m k = (case m k of None \<Rightarrow> False | Some b \<Rightarrow> b)"

section \<open>Writing a text block\<close>

text \<open>The argument of \<^verbatim>\<open>PrintfLine\<close> in \<^verbatim>\<open>WriteTextBlock\<close>; both lines end in a line feed.\<close>

definition mime_header :: string where
  "mime_header = ''Content-type: text/plain; charset=utf-8'' @ [lf] @ ''Content-transfer-encoding: 8bit'' @ [lf]"

definition WriteTextBlock :: "'h Session \<Rightarrow> string \<Rightarrow> 'h Session" where
  "WriteTextBlock session stream =
     (let session1 =
            (if option_value (Options session) ''MIME''
             then session\<lparr>Connection := PrintfLine (Connection session) mime_header\<rparr>
             else session);
          writer = DotWriter (Connection session1);
          writer1 = Write writer stream;
          writer2 = closeDot writer1
      in session1\<lparr>Connection := writer2\<rparr>)"

text \<open>
  The dot-stuffed payload: what a fresh dot writer emits for \<open>stream\<close>, from
  \<^verbatim>\<open>Write\<close> to \<^verbatim>\<open>Close\<close>.
\<close>

definition dot_block :: "string \<Rightarrow> string" where
  "dot_block stream =
     (case dotWriter_Write wstateBegin stream of (state, out) \<Rightarrow> out @ dotWriter_Close state)"

text \<open>
  The lines of a byte sequence as a reader of the wire sees them: split at the line
  feeds, a carriage return before the line feed dropped.
\<close>

fun split_lf :: "string \<Rightarrow> string \<Rightarrow> string list" where
  "split_lf cur [] = (if cur = [] then [] else [cur])"
| "split_lf cur (c # cs) = (if c = lf then cur # split_lf [] cs else split_lf (cur @ [c]) cs)"

definition wire_lines :: "string \<Rightarrow> string list" where
  "wire_lines s = map (\<lambda>l. if l \<noteq> [] \<and> last l = cr then butlast l else l) (split_lf [] s)"

section \<open>The dispatcher\<close>

text \<open>
  \<^verbatim>\<open>handleCommand\<close> receives a pointer to a \<^verbatim>\<open>Command\<close> and passes \<^verbatim>\<open>*command\<close>, a copy
  of the struct, to the handler.  The field \<^verbatim>\<open>Params\<close> of the struct is a slice: a
  reference to a backing array together with a length.  Copying the struct copies that
  reference, not the array.  Memory is therefore explicit here: a store of the
  \<^verbatim>\<open>Command\<close> structs and a store of the backing arrays, both by address.  A slice is
  its array and its length; the array of a slice holds the elements from the start of
  the slice on (what lies before a slice cannot be reached through it, and the capacity
  is left out).
\<close>

type_synonym addr = nat

record slice =
  array :: addr
  len :: nat

text \<open>
  The handlers are outside \<^verbatim>\<open>socket.go\<close>.  A handler is called with the pointer to the
  session and with its own copy of the command; it may change the session (its fields
  and what is written to its connection), every backing array it can reach, and
  whatever else it owns (\<open>'x\<close>).  It holds no pointer to the caller's \<^verbatim>\<open>Command\<close>
  struct.  Handlers are taken to return.  \<open>handlers\<close> gives the effect of each callee,
  for the handlers of the registry and for \<^verbatim>\<open>unknownCommandHandler\<close>.
\<close>

datatype 'h callee = registered 'h | unknownCommandHandler

type_synonym ('h, 'x) reach = "'h Session \<times> (addr \<Rightarrow> string list) \<times> 'x"

type_synonym ('h, 'x) handlers = "'h callee \<Rightarrow> slice Command \<Rightarrow> ('h, 'x) reach \<Rightarrow> ('h, 'x) reach"

text \<open>
  The state of one connection.  \<open>invoked\<close> is the record of the calls made to handlers,
  each with the callee and the command value it received; it is there to count the
  calls and is written by \<open>invoke\<close> only.
\<close>

record ('h, 'x) World =
  session :: "'h Session"
  arrays :: "addr \<Rightarrow> string list"
  extern :: 'x
  commands :: "addr \<Rightarrow> slice Command"
  next_addr :: addr
  invoked :: "('h callee \<times> slice Command) list"

definition invoke :: "('h, 'x) handlers \<Rightarrow> 'h callee \<Rightarrow> slice Command \<Rightarrow> ('h, 'x) World \<Rightarrow> ('h, 'x) World" where
  "invoke run f c w =
     (case run f c (session w, arrays w, extern w) of
        (s, a, x) \<Rightarrow> w\<lparr>session := s, arrays := a, extern := x, invoked := invoked w @ [(f, c)]\<rparr>)"

text \<open>\<^verbatim>\<open>handleCommand\<close>; the call of \<^verbatim>\<open>log.Printf\<close> writes to the log only and is left out.\<close>

definition handleCommand :: "('h, 'x) handlers \<Rightarrow> ('h, 'x) World \<Rightarrow> addr \<Rightarrow> ('h, 'x) World" where
  "handleCommand run w command =
     (case GetHandler (DictServer (session w)) (commands w command) of
        None \<Rightarrow> invoke run unknownCommandHandler (commands w command) w
      | Some handler \<Rightarrow> invoke run (registered handler) (commands w command) w)"

text \<open>What the caller reads through its pointer: the verb and the elements of \<^verbatim>\<open>Params\<close>.\<close>

definition command_value :: "('h, 'x) World \<Rightarrow> addr \<Rightarrow> string list Command" where
  "command_value w command =
     (let c = commands w command
      in \<lparr>Command = Command c, Params = take (len (Params c)) (arrays w (array (Params c)))\<rparr>)"

text \<open>
  The \<^verbatim>\<open>&command\<close> that \<^verbatim>\<open>parseLine\<close> returns: a new struct, whose \<^verbatim>\<open>Params\<close> is the
  slice \<^verbatim>\<open>tokens[1:]\<close> of the array of tokens, at addresses not in use.
\<close>

definition new_Command :: "string list Command \<Rightarrow> ('h, 'x) World \<Rightarrow> addr \<times> ('h, 'x) World" where
  "new_Command c w =
     (let p = next_addr w
      in (p, w\<lparr>arrays := (arrays w)(p := Params c),
                commands := (commands w)(p := \<lparr>Command = Command c, Params = \<lparr>array = p, len = length (Params c)\<rparr>\<rparr>),
                next_addr := Suc p\<rparr>))"

section \<open>The connection loop\<close>

text \<open>
  \<^verbatim>\<open>proto.ReadLine()\<close> returns a line, or an error (the end of the stream is one), or
  it blocks for ever.  The transport is the sequence of these results, by the number of
  the read.
\<close>

datatype read_result = Line string | ReadError | Blocked

text \<open>
  The \<^verbatim>\<open>for\<close> loop of \<^verbatim>\<open>Handle\<close>.  It need not end, so its result is optional: \<open>None\<close>
  is a loop that runs for ever, \<open>Some (Return w)\<close> the \<^verbatim>\<open>return\<close> after a failed read,
  \<open>Some Panic\<close> a panic inside \<^verbatim>\<open>parseLine\<close>.  Each \<^verbatim>\<open>continue\<close> is the next turn with
  the state as it is.
\<close>

partial_function (option) Handle_loop ::
  "(string \<Rightarrow> string) \<Rightarrow> ('h, 'x) handlers \<Rightarrow> (nat \<Rightarrow> read_result) \<Rightarrow> nat \<Rightarrow> ('h, 'x) World
     \<Rightarrow> ('h, 'x) World outcome option" where
  "Handle_loop ToUpper run reads n w =
     (case reads n of
        Blocked \<Rightarrow> None
      | ReadError \<Rightarrow> Some (Return w)
      | Line l \<Rightarrow>
          (let line = Trim l [space, lf, cr, tab] in
           if line = [] then Handle_loop ToUpper run reads (Suc n) w
           else
             (case parseLine ToUpper line of
                Panic \<Rightarrow> Some Panic
              | Return (Inl err) \<Rightarrow> Handle_loop ToUpper run reads (Suc n) w
              | Return (Inr c) \<Rightarrow>
                  (case new_Command c w of
                     (command, w') \<Rightarrow>
                       Handle_loop ToUpper run reads (Suc n) (handleCommand run w' command)))))"

text \<open>
  \<^verbatim>\<open>Handle\<close>: the session is built, with \<^verbatim>\<open>MIME\<close> set to false, the handshake handler
  (outside \<^verbatim>\<open>socket.go\<close>) is called on it, and the loop starts.  \<open>msgId\<close> is the result
  of \<^verbatim>\<open>generateMsgId(server)\<close>, which reads the clock.
\<close>

definition Handle ::
  "(string \<Rightarrow> string) \<Rightarrow> ('h, 'x) handlers \<Rightarrow> (('h, 'x) reach \<Rightarrow> ('h, 'x) reach) \<Rightarrow> string
     \<Rightarrow> 'h Server \<Rightarrow> (nat \<Rightarrow> read_result) \<Rightarrow> ('h, 'x) World \<Rightarrow> ('h, 'x) World outcome option" where
  "Handle ToUpper run handshakeHandler msgId server reads w =
     (let session0 = \<lparr>MsgId = msgId, Client = [], Connection = \<lparr>sent = [], dot = None\<rparr>,
                       DictServer = server, Options = Map.empty\<rparr>;
          session1 = session0\<lparr>Options := (Options session0)(''MIME'' \<mapsto> False)\<rparr>
      in case handshakeHandler (session1, arrays w, extern w) of
           (s, a, x) \<Rightarrow> Handle_loop ToUpper run reads 0 (w\<lparr>session := s, arrays := a, extern := x\<rparr>))"

text \<open>
  One turn of the loop on a line that was read, as a function of the state: the state
  with which the next turn starts.
\<close>

definition iteration :: "(string \<Rightarrow> string) \<Rightarrow> ('h, 'x) handlers \<Rightarrow> ('h, 'x) World \<Rightarrow> string \<Rightarrow> ('h, 'x) World" where
  "iteration ToUpper run w l =
     (let line = Trim l [space, lf, cr, tab] in
      if line = [] then w
      else
        (case parseLine ToUpper line of
           Return (Inr c) \<Rightarrow> (case new_Command c w of (command, w') \<Rightarrow> handleCommand run w' command)
         | _ \<Rightarrow> w))"

section \<open>Concrete sessions, handlers and transports\<close>

definition example_server :: "nat Server" where
  "example_server = \<lparr>Name = ''dict'', commandHandlers = [''SHOW'' \<mapsto> 0]\<rparr>"

definition example_session :: "bool \<Rightarrow> nat Session" where
  "example_session mime =
     \<lparr>MsgId = ''1.0@dict'', Client = [], Connection = \<lparr>sent = [], dot = None\<rparr>,
      DictServer = example_server, Options = [''MIME'' \<mapsto> mime]\<rparr>"

definition example_world :: "(nat, unit) World" where
  "example_world =
     \<lparr>session = example_session False, arrays = (\<lambda>a. []), extern = (),
      commands = (\<lambda>a. \<lparr>Command = [], Params = \<lparr>array = 0, len = 0\<rparr>\<rparr>), next_addr = 0, invoked = []\<rparr>"

text \<open>Handlers that do nothing.\<close>

definition idle_handlers :: "(nat, unit) handlers" where
  "idle_handlers f c r = r"

text \<open>
  Handlers that run \<^verbatim>\<open>command.Params[0] = "x"\<close> on their copy of the command, when it
  has a parameter.
\<close>

definition overwriting_handlers :: "(nat, unit) handlers" where
  "overwriting_handlers f c r =
     (case r of
        (s, a, x) \<Rightarrow>
          (if len (Params c) = 0 then (s, a, x)
           else (s, a(array (Params c) := (a (array (Params c)))[0 := ''x'']), x)))"

text \<open>A blank line, a line with a bad quote, a command, then the end of the stream.\<close>

definition example_reads :: "nat \<Rightarrow> read_result" where
  "example_reads i =
     (if i = 0 then Line ''  ''
      else if i = 1 then Line ([dquote] @ ''a'' @ [squote])
      else if i = 2 then Line ''show server''
      else ReadError)"

section \<open>Properties of the tokenizer and the parser\<close>

lemmas tokenizer_eval =
  tokenizeLine_def tokenizeLine_loop.simps consume_def consumeAtom_def consumeString_def
  cleanup_def Trim_def Replace_backslash_def Let_def

subsection \<open>The loop of the tokenizer, one token at a time\<close>

lemma tokenizeLine_loop_acc:
  "tokenizeLine_loop acc line =
     (case tokenizeLine_loop [] line of Inl e \<Rightarrow> Inl e | Inr ts \<Rightarrow> Inr (acc @ ts))"
proof (induction "length line" arbitrary: acc line rule: less_induct)
  case less
  show ?case
  proof (cases "line = []")
    case True
    then show ?thesis by (simp add: tokenizeLine_loop.simps)
  next
    case False
    show ?thesis
    proof (cases "consume line")
      case (Inl e)
      with False show ?thesis by (simp add: tokenizeLine_loop.simps)
    next
      case (Inr p)
      obtain token line' where p: "p = (token, line')" by (cases p)
      from Inr p False have shorter: "length line' < length line"
        by (auto dest: consume_shorter)
      have a: "tokenizeLine_loop (acc @ [token]) line' =
          (case tokenizeLine_loop [] line' of Inl e \<Rightarrow> Inl e | Inr ts \<Rightarrow> Inr ((acc @ [token]) @ ts))"
        by (rule less [OF shorter])
      have b: "tokenizeLine_loop ([] @ [token]) line' =
          (case tokenizeLine_loop [] line' of Inl e \<Rightarrow> Inl e | Inr ts \<Rightarrow> Inr (([] @ [token]) @ ts))"
        by (rule less [OF shorter])
      show ?thesis
        using False Inr p a b
        by (simp add: tokenizeLine_loop.simps [of acc line] tokenizeLine_loop.simps [of "[]" line] split: sum.splits)
    qed
  qed
qed

lemma tokenizeLine_Nil: "tokenizeLine [] = Inr []"
  by (simp add: tokenizeLine_def tokenizeLine_loop.simps)

lemma tokenizeLine_step:
  "line \<noteq> [] \<Longrightarrow> tokenizeLine line =
     (case consume line of
        Inl e \<Rightarrow> Inl e
      | Inr (token, line') \<Rightarrow>
          (case tokenizeLine line' of Inl e \<Rightarrow> Inl e | Inr ts \<Rightarrow> Inr (token # ts)))"
  unfolding tokenizeLine_def
  by (subst tokenizeLine_loop.simps) (simp add: tokenizeLine_loop_acc [of "[t]" for t] split: sum.splits)

lemma tokenizeLine_nonempty:
  "line \<noteq> [] \<Longrightarrow> tokenizeLine line = Inr toks \<Longrightarrow> toks \<noteq> []"
  by (auto simp: tokenizeLine_step split: sum.splits)

lemma tokenizeLine_no_tokens: "tokenizeLine line = Inr [] \<longleftrightarrow> line = []"
  using tokenizeLine_nonempty [of line "[]"] by (auto simp: tokenizeLine_Nil)

subsection \<open>What the two scans return\<close>

lemma consumeString_loop_body:
  "escaped_body body \<Longrightarrow> q = dquote \<or> q = squote \<Longrightarrow>
     consumeString_loop q buf i False (body @ suf) = consumeString_loop q buf (i + length body) False suf"
proof (induction body arbitrary: i rule: escaped_body.induct)
  case 1
  then show ?case by simp
next
  case (2 c cs)
  show ?case
  proof (cases "c = backslash")
    case True
    with "2.prems" obtain d ds where cs: "cs = d # ds" and d: "d \<noteq> backslash" and ds: "escaped_body ds"
      by (auto split: list.splits)
    have "consumeString_loop q buf (Suc (Suc i)) False (ds @ suf)
        = consumeString_loop q buf (Suc (Suc i) + length ds) False suf"
      using "2.IH"(1) [OF True cs ds "2.prems"(2)] by simp
    then show ?thesis using True cs d "2.prems"(2) by auto
  next
    case False
    with "2.prems" have c: "c \<noteq> dquote" "c \<noteq> squote" and rest: "escaped_body cs"
      by auto
    have "consumeString_loop q buf (Suc i) False (cs @ suf)
        = consumeString_loop q buf (Suc i + length cs) False suf"
      using "2.IH"(2) False c rest "2.prems"(2) by simp
    then show ?thesis using False c "2.prems"(2) by auto
  qed
qed

lemma consumeString_closed:
  assumes "escaped_body body" and "q = dquote \<or> q = squote"
  shows "consumeString q (body @ q # rest) = Inr (Replace_backslash body, cleanup rest)"
proof -
  have "consumeString q (body @ q # rest)
      = consumeString_loop q (body @ q # rest) (0 + length body) False (q # rest)"
    unfolding consumeString_def by (rule consumeString_loop_body [OF assms])
  then show ?thesis by simp
qed


lemma consumeAtom_loop_eq:
  "consumeAtom_loop (pre @ suf) (length pre) suf =
     (if space \<in> set suf
      then Inr (pre @ takeWhile (\<lambda>c. c \<noteq> space) suf, cleanup (dropWhile (\<lambda>c. c \<noteq> space) suf))
      else Inr (pre @ suf, []))"
proof (induction suf arbitrary: pre)
  case Nil
  then show ?case by simp
next
  case (Cons el els)
  show ?case
  proof (cases "el = space")
    case True
    then show ?thesis by simp
  next
    case False
    have "consumeAtom_loop ((pre @ [el]) @ els) (length (pre @ [el])) els =
       (if space \<in> set els
        then Inr ((pre @ [el]) @ takeWhile (\<lambda>c. c \<noteq> space) els, cleanup (dropWhile (\<lambda>c. c \<noteq> space) els))
        else Inr ((pre @ [el]) @ els, []))"
      by (rule Cons.IH)
    with False show ?thesis by simp
  qed
qed

lemma consumeAtom_eq:
  "consumeAtom buf =
     (if space \<in> set buf
      then Inr (takeWhile (\<lambda>c. c \<noteq> space) buf, cleanup (dropWhile (\<lambda>c. c \<noteq> space) buf))
      else Inr (buf, []))"
  unfolding consumeAtom_def using consumeAtom_loop_eq [of "[]" buf] by simp

text \<open>
  Where no backslash follows a backslash, \<open>consumeString\<close> returns what the scan of
  the specification returns: the token, the rest and the error are the same.
\<close>

lemma scans_agree:
  "no_backslash_pair suf \<Longrightarrow> (esc \<longrightarrow> suf = [] \<or> hd suf \<noteq> backslash) \<Longrightarrow> q \<noteq> backslash \<Longrightarrow>
     consumeString_loop q (pre @ suf) (length pre) esc suf
       = spec_quoted_scan q (pre @ suf) esc (Replace_backslash pre) suf"
proof (induction suf arbitrary: pre esc)
  case Nil
  then show ?case by simp
next
  case (Cons el els)
  have np: "no_backslash_pair els" using Cons.prems(1) by (cases els) auto
  have nx: "el = backslash \<longrightarrow> els = [] \<or> hd els \<noteq> backslash"
    using Cons.prems(1) by (cases els) auto
  have step: "consumeString_loop q ((pre @ [el]) @ els) (length (pre @ [el])) e els
       = spec_quoted_scan q ((pre @ [el]) @ els) e (Replace_backslash (pre @ [el])) els"
    if "e \<longrightarrow> els = [] \<or> hd els \<noteq> backslash" for e
    using Cons.IH [OF np that Cons.prems(3), of "pre @ [el]"] .
  show ?case
  proof (cases esc)
    case True
    with Cons.prems(2) have nb: "el \<noteq> backslash" by simp
    from step [of False] True nb show ?thesis
      by (auto simp: Replace_backslash_def)
  next
    case False
    show ?thesis
    proof (cases "el = backslash")
      case True
      from step [of True] nx True False Cons.prems(3) show ?thesis
        by (auto simp: Replace_backslash_def)
    next
      case nb: False
      from step [of False] False nb show ?thesis
        by (auto simp: Replace_backslash_def)
    qed
  qed
qed

lemma consumeString_spec:
  "no_backslash_pair buf \<Longrightarrow> q \<noteq> backslash \<Longrightarrow> consumeString q buf = spec_quoted_token q buf"
  using scans_agree [of buf False q "[]"]
  by (simp add: consumeString_def spec_quoted_token_def Replace_backslash_def)

subsection \<open>The claims about the tokenizer and the parser\<close>

text \<open>
  C1. In a quoted token a backslash that is not itself escaped escapes exactly one
  following character and is removed from the token; an escaped backslash yields a
  literal backslash and does not escape the character after it.  The code does not do
  the second part: on the token \<^verbatim>\<open>"a\\b"\<close> it returns \<^verbatim>\<open>ab\<close> where the scan of the
  specification returns \<^verbatim>\<open>a\b\<close>, and on \<^verbatim>\<open>"a\\"b"\<close> the quote after the two backslashes
  does not close the token.  The theorem evaluates both at these inputs.
\<close>

theorem escaped_backslash_eval:
  "consumeString dquote (''a'' @ [backslash, backslash] @ ''b'' @ [dquote]) = Inr (''ab'', [])
   \<and> spec_quoted_token dquote (''a'' @ [backslash, backslash] @ ''b'' @ [dquote])
       = Inr (''a'' @ [backslash] @ ''b'', [])
   \<and> consumeString dquote (''a'' @ [backslash, backslash, dquote] @ ''b'' @ [dquote])
       = Inr (''a'' @ [dquote] @ ''b'', [])
   \<and> spec_quoted_token dquote (''a'' @ [backslash, backslash, dquote] @ ''b'' @ [dquote])
       = Inr (''a'' @ [backslash], ''b'' @ [dquote])
   \<and> tokenizeLine ([dquote] @ ''a'' @ [backslash, backslash] @ ''b'' @ [dquote]) = Inr [''ab'']"
  by (simp add: tokenizer_eval spec_quoted_token_def)

text \<open>
  C2. Tokenization fails exactly when a token opened with one quote contains the other
  quote unescaped before the closing quote.  After two backslashes the code still takes
  the next character as escaped, so \<^verbatim>\<open>"a\\'b"\<close> and \<^verbatim>\<open>'a\\"b'\<close> are accepted, where the
  scan of the specification fails.  The theorem evaluates both at these inputs.
\<close>

theorem other_quote_after_backslash_pair_eval:
  "tokenizeLine ([dquote] @ ''a'' @ [backslash, backslash, squote] @ ''b'' @ [dquote])
       = Inr [''a'' @ [squote] @ ''b'']
   \<and> spec_quoted_token dquote (''a'' @ [backslash, backslash, squote] @ ''b'' @ [dquote]) = Inl BadChar
   \<and> tokenizeLine ([squote] @ ''a'' @ [backslash, backslash, dquote] @ ''b'' @ [squote])
       = Inr [''a'' @ [dquote] @ ''b'']
   \<and> spec_quoted_token squote (''a'' @ [backslash, backslash, dquote] @ ''b'' @ [squote]) = Inl BadChar"
  by (simp add: tokenizer_eval spec_quoted_token_def)




text \<open>
  C4, as stated: no token of a successful tokenization retains an unescaped backslash.
  It fails on the atom \<^verbatim>\<open>a\b\<close>, which is emitted with its backslash.
\<close>

theorem tokens_stripped_counterexample:
  "tokenizeLine (''a'' @ [backslash] @ ''b'') = Inr [''a'' @ [backslash] @ ''b'']
   \<and> backslash \<in> set (''a'' @ [backslash] @ ''b'')"
  by (simp add: tokenizer_eval)

text \<open>
  C4, amended: the token of a quoted token that is closed by its matching quote, with a
  body of ordinary characters and backslash-escaped characters other than the backslash,
  is the body without its backslashes and without the two surrounding quotes, and the
  tokens after it are those of the trimmed rest; an atom is emitted as it stands in the
  line, up to the first space, whatever backslashes and quotes it holds.
\<close>

theorem tokens_stripped:
  "(escaped_body body \<longrightarrow> q = dquote \<or> q = squote \<longrightarrow>
      tokenizeLine (q # body @ q # rest) =
        (case tokenizeLine (cleanup rest) of
           Inl e \<Rightarrow> Inl e
         | Inr ts \<Rightarrow> Inr (Replace_backslash body # ts))
      \<and> backslash \<notin> set (Replace_backslash body))
   \<and> (leader \<noteq> dquote \<longrightarrow> leader \<noteq> squote \<longrightarrow>
      tokenizeLine (leader # buf) =
        (if space \<in> set (leader # buf) then
           (case tokenizeLine (cleanup (dropWhile (\<lambda>c. c \<noteq> space) (leader # buf))) of
              Inl e \<Rightarrow> Inl e
            | Inr ts \<Rightarrow> Inr (takeWhile (\<lambda>c. c \<noteq> space) (leader # buf) # ts))
         else Inr [leader # buf]))"
proof (intro conjI impI)
  assume b: "escaped_body body" and q: "q = dquote \<or> q = squote"
  have "consume (q # body @ q # rest) = Inr (Replace_backslash body, cleanup rest)"
    using consumeString_closed [OF b q, of rest] q by (auto simp: consume_def)
  then show "tokenizeLine (q # body @ q # rest) =
        (case tokenizeLine (cleanup rest) of
           Inl e \<Rightarrow> Inl e
         | Inr ts \<Rightarrow> Inr (Replace_backslash body # ts))"
    by (simp add: tokenizeLine_step)
  show "backslash \<notin> set (Replace_backslash body)"
    by (simp add: Replace_backslash_def)
next
  assume l: "leader \<noteq> dquote" "leader \<noteq> squote"
  have "consume (leader # buf) = consumeAtom (leader # buf)"
    using l by (simp add: consume_def)
  then show "tokenizeLine (leader # buf) =
        (if space \<in> set (leader # buf) then
           (case tokenizeLine (cleanup (dropWhile (\<lambda>c. c \<noteq> space) (leader # buf))) of
              Inl e \<Rightarrow> Inl e
            | Inr ts \<Rightarrow> Inr (takeWhile (\<lambda>c. c \<noteq> space) (leader # buf) # ts))
         else Inr [leader # buf])"
    by (simp add: tokenizeLine_step consumeAtom_eq tokenizeLine_Nil del: set_simps takeWhile.simps dropWhile.simps)
qed

theorem tokens_stripped_witness:
  "escaped_body (''a'' @ [backslash, dquote] @ ''b c'')
   \<and> tokenizeLine ([dquote] @ ''a'' @ [backslash, dquote] @ ''b c'' @ [dquote] @ '' x'')
       = Inr [''a'' @ [dquote] @ ''b c'', ''x'']
   \<and> tokenizeLine (''it'' @ [squote, backslash] @ ''s now'')
       = Inr [''it'' @ [squote, backslash] @ ''s'', ''now'']"
proof -
  have h: "escaped_body (''a'' @ [backslash, dquote] @ ''b c'')" by simp
  have r: "tokenizeLine (cleanup '' x'') = Inr [''x'']" by (simp add: tokenizer_eval)
  have r2: "tokenizeLine (cleanup '' now'') = Inr [''now'']" by (simp add: tokenizer_eval)
  from tokens_stripped [of "''a'' @ [backslash, dquote] @ ''b c''" dquote "'' x''" "CHR ''i''"
      "''t'' @ [squote, backslash] @ ''s now''"] h r r2
  show ?thesis by (simp add: Replace_backslash_def)
qed

text \<open>
  C5. When tokenization gives a non-empty sequence, \<open>parseLine\<close> returns the command
  whose verb is the first token upper-cased and whose parameters are the other tokens,
  in order and as they are; \<open>parseLine\<close> returns an error exactly when tokenization
  fails, and it is the error of the tokenizer.
\<close>

theorem parseLine_spec:
  "(\<forall>t ts. tokenizeLine line = Inr (t # ts)
       \<longrightarrow> parseLine ToUpper line = Return (Inr \<lparr>Command = ToUpper t, Params = ts\<rparr>))
   \<and> (\<forall>e. parseLine ToUpper line = Return (Inl e) \<longleftrightarrow> tokenizeLine line = Inl e)"
  by (auto simp: parseLine_def split: sum.splits list.splits)

theorem parseLine_spec_witness:
  "tokenizeLine ''show server'' = Inr [''show'', ''server'']
   \<and> parseLine ToUpper_ascii ''show server'' = Return (Inr \<lparr>Command = ''SHOW'', Params = [''server'']\<rparr>)
   \<and> tokenizeLine ([dquote] @ ''a'' @ [squote]) = Inl BadChar
   \<and> parseLine ToUpper_ascii ([dquote] @ ''a'' @ [squote]) = Return (Inl BadChar)"
proof -
  have a: "tokenizeLine ''show server'' = Inr [''show'', ''server'']"
    by (simp add: tokenizer_eval)
  have b: "tokenizeLine ([dquote] @ ''a'' @ [squote]) = Inl BadChar"
    by (simp add: tokenizer_eval)
  have u: "ToUpper_ascii ''show'' = ''SHOW''"
    by (simp add: ToUpper_ascii_def upper_byte_def)
  from parseLine_spec [of "''show server''" ToUpper_ascii] a u
  have c: "parseLine ToUpper_ascii ''show server'' = Return (Inr \<lparr>Command = ''SHOW'', Params = [''server'']\<rparr>)"
    by simp
  from parseLine_spec [of "[dquote] @ ''a'' @ [squote]" ToUpper_ascii] b
  have d: "parseLine ToUpper_ascii ([dquote] @ ''a'' @ [squote]) = Return (Inl BadChar)"
    by simp
  from a b c d show ?thesis by simp
qed

text \<open>
  C10. A non-empty line that tokenizes gives at least one token, so on a line that is
  not empty after trimming \<open>parseLine\<close> does not panic on \<^verbatim>\<open>tokens[0]\<close>; the panic
  happens exactly when tokenization gives no token, which is exactly the empty line.
\<close>

theorem parseLine_in_bounds:
  "(line \<noteq> [] \<longrightarrow> (\<forall>toks. tokenizeLine line = Inr toks \<longrightarrow> toks \<noteq> []))
   \<and> (Trim raw [space, lf, cr, tab] \<noteq> [] \<longrightarrow> parseLine ToUpper (Trim raw [space, lf, cr, tab]) \<noteq> Panic)
   \<and> (parseLine ToUpper line = Panic \<longleftrightarrow> tokenizeLine line = Inr [])
   \<and> (tokenizeLine line = Inr [] \<longleftrightarrow> line = [])"
  by (auto simp: parseLine_def tokenizeLine_no_tokens tokenizeLine_Nil split: sum.splits list.splits dest: tokenizeLine_nonempty)

theorem parseLine_in_bounds_witness:
  "''show'' \<noteq> [] \<and> tokenizeLine ''show'' = Inr [''show''] \<and> [''show''] \<noteq> []
   \<and> Trim ''  show  '' [space, lf, cr, tab] = ''show''
   \<and> parseLine ToUpper_ascii (Trim ''  show  '' [space, lf, cr, tab]) \<noteq> Panic
   \<and> parseLine ToUpper_ascii [] = Panic \<and> tokenizeLine [] = Inr []"
proof -
  have a: "tokenizeLine ''show'' = Inr [''show'']" by (simp add: tokenizer_eval)
  have b: "Trim ''  show  '' [space, lf, cr, tab] = ''show''" by (simp add: Trim_def)
  have c: "tokenizeLine [] = Inr []" by (simp add: tokenizer_eval)
  from parseLine_in_bounds [of "''show''" "''  show  ''" ToUpper_ascii]
    parseLine_in_bounds [of "[]" "''  show  ''" ToUpper_ascii] a b c
  show ?thesis by simp
qed

text \<open>
  C9. The three examples of the tokenizer: \<^verbatim>\<open>DEFINE wn hello\<close> gives the tokens DEFINE,
  wn, hello; \<^verbatim>\<open>DEFINE wn "hello world"\<close> gives DEFINE, wn, hello world; and
  \<^verbatim>\<open>it's\<close> gives the one token it's, the apostrophe being literal inside an atom.
  None of them is an error.
\<close>

theorem tokenizeLine_examples:
  "tokenizeLine ''DEFINE wn hello'' = Inr [''DEFINE'', ''wn'', ''hello'']
   \<and> tokenizeLine (''DEFINE wn '' @ [dquote] @ ''hello world'' @ [dquote])
       = Inr [''DEFINE'', ''wn'', ''hello world'']
   \<and> tokenizeLine (''it'' @ [squote] @ ''s'') = Inr [''it'' @ [squote] @ ''s'']"
  by (simp add: tokenizer_eval)

section \<open>Properties of the response writer\<close>

lemma dotWriter_byte_inv:
  assumes "dotWriter_byte st c = (st', out)"
    and "st = wstateCR \<longrightarrow> (\<exists>b. acc = b @ [cr])"
  shows "(st' = wstateBeginLine \<longrightarrow> (\<exists>b. acc @ out = b @ [cr, lf]))
       \<and> (st' = wstateCR \<longrightarrow> (\<exists>b. acc @ out = b @ [cr]))"
proof (cases st)
  case wstateCR
  with assms obtain b where "acc = b @ [cr]" by auto
  with wstateCR assms(1) show ?thesis by (auto split: if_splits)
next
  case wstateBegin
  with assms(1) show ?thesis
    by (auto simp: dotWriter_data_def split: if_splits)
next
  case wstateBeginLine
  with assms(1) show ?thesis
    by (auto simp: dotWriter_data_def split: if_splits)
next
  case wstateData
  with assms(1) show ?thesis
    by (auto simp: dotWriter_data_def split: if_splits)
qed


lemma dotWriter_Write_inv:
  "dotWriter_Write st b = (st', out) \<Longrightarrow>
   (st = wstateCR \<longrightarrow> (\<exists>x. acc = x @ [cr])) \<Longrightarrow>
   (st = wstateBeginLine \<longrightarrow> (\<exists>x. acc = x @ [cr, lf])) \<Longrightarrow>
     (st' = wstateBeginLine \<longrightarrow> (\<exists>x. acc @ out = x @ [cr, lf]))
     \<and> (st' = wstateCR \<longrightarrow> (\<exists>x. acc @ out = x @ [cr]))"
proof (induction b arbitrary: st acc out st')
  case Nil
  then show ?case by auto
next
  case (Cons c b)
  obtain st1 out1 where s1: "dotWriter_byte st c = (st1, out1)" by (cases "dotWriter_byte st c")
  obtain st2 out2 where s2: "dotWriter_Write st1 b = (st2, out2)" by (cases "dotWriter_Write st1 b")
  from Cons.prems(1) s1 s2 have eq: "st' = st2" "out = out1 @ out2" by auto
  from dotWriter_byte_inv [OF s1 Cons.prems(2)]
  have i1: "st1 = wstateBeginLine \<longrightarrow> (\<exists>x. acc @ out1 = x @ [cr, lf])"
    and i2: "st1 = wstateCR \<longrightarrow> (\<exists>x. acc @ out1 = x @ [cr])" by auto
  from Cons.IH [OF s2 i2 i1] eq show ?case by simp
qed

lemma dot_block_terminated: "\<exists>body. dot_block stream = body @ [cr, lf, period, cr, lf]"
proof -
  obtain st out where w: "dotWriter_Write wstateBegin stream = (st, out)"
    by (cases "dotWriter_Write wstateBegin stream")
  from dotWriter_Write_inv [OF w, of "[]"]
  have i: "st = wstateBeginLine \<longrightarrow> (\<exists>x. out = x @ [cr, lf])" "st = wstateCR \<longrightarrow> (\<exists>x. out = x @ [cr])"
    by auto
  show ?thesis
  proof (cases st)
    case wstateBegin
    with w show ?thesis by (simp add: dot_block_def)
  next
    case wstateData
    with w show ?thesis by (simp add: dot_block_def)
  next
    case wstateCR
    with i obtain x where "out = x @ [cr]" by auto
    with w wstateCR show ?thesis by (simp add: dot_block_def)
  next
    case wstateBeginLine
    with i obtain x where "out = x @ [cr, lf]" by auto
    with w wstateBeginLine show ?thesis by (simp add: dot_block_def)
  qed
qed

lemma closeDot_closed: "dot (closeDot w) = None"
  by (simp add: closeDot_def split: option.splits)

lemma closeDot_idem: "closeDot (closeDot w) = closeDot w"
  by (simp add: closeDot_def split: option.splits)

lemma write_block:
  assumes "dot w = None"
  shows "closeDot (Write (DotWriter w) stream) = w\<lparr>sent := sent w @ dot_block stream\<rparr>"
  using assms
  by (cases "dotWriter_Write wstateBegin stream")
     (simp add: closeDot_def DotWriter_def Write_def dot_block_def)

text \<open>
  C8, as stated: with the MIME option on, exactly the two header lines come before the
  dot-stuffed payload.  On the payload \<^verbatim>\<open>hi\<close> the wire carries five lines: the two header
  lines, an empty line, then the two lines of the payload block.  The format string
  ends in a line feed and \<^verbatim>\<open>PrintfLine\<close> ends the line once more.
\<close>

theorem WriteTextBlock_header_counterexample:
  "wire_lines (sent (Connection (WriteTextBlock (example_session True) ''hi'')))
     = [''Content-type: text/plain; charset=utf-8'', ''Content-transfer-encoding: 8bit'', [], ''hi'', ''.'']
   \<and> wire_lines (dot_block ''hi'') = [''hi'', ''.'']"
  by (simp add: wire_lines_def WriteTextBlock_def example_session_def option_value_def PrintfLine_def
      closeDot_def DotWriter_def Write_def mime_header_def dot_block_def dotWriter_data_def Let_def)

text \<open>
  C8, amended: after whatever the connection carried before (an open dot block is
  closed first), \<open>WriteTextBlock\<close> writes, if and only if the MIME option of the session
  is true, the two fixed header lines, each ended by a line feed, and one empty line;
  then, in both cases, the dot-stuffed payload and nothing else.  The payload block
  always ends with the line that holds a lone dot, and no dot writer stays open.
\<close>

theorem WriteTextBlock_bytes:
  "sent (Connection (WriteTextBlock s stream)) =
     sent (closeDot (Connection s))
       @ (if option_value (Options s) ''MIME''
          then ''Content-type: text/plain; charset=utf-8'' @ [lf]
             @ ''Content-transfer-encoding: 8bit'' @ [lf] @ [cr, lf]
          else [])
       @ dot_block stream
   \<and> dot (Connection (WriteTextBlock s stream)) = None
   \<and> (\<exists>body. dot_block stream = body @ [cr, lf] @ [period, cr, lf])"
proof -
  have t: "\<exists>body. dot_block stream = body @ [cr, lf] @ [period, cr, lf]"
    using dot_block_terminated [of stream] by simp
  show ?thesis
  proof (cases "option_value (Options s) ''MIME''")
    case True
    define w where "w = PrintfLine (Connection s) mime_header"
    have d: "dot w = None" by (simp add: w_def PrintfLine_def Let_def closeDot_closed)
    have "Connection (WriteTextBlock s stream) = closeDot (Write (DotWriter w) stream)"
      using True by (simp add: WriteTextBlock_def Let_def w_def)
    also have "\<dots> = w\<lparr>sent := sent w @ dot_block stream\<rparr>" by (rule write_block [OF d])
    finally have c: "Connection (WriteTextBlock s stream) = w\<lparr>sent := sent w @ dot_block stream\<rparr>" .
    have "sent w = sent (closeDot (Connection s)) @ mime_header @ [cr, lf]"
      by (simp add: w_def PrintfLine_def Let_def)
    with c d True t show ?thesis by (simp add: mime_header_def)
  next
    case False
    define w where "w = closeDot (Connection s)"
    have d: "dot w = None" by (simp add: w_def closeDot_closed)
    have "DotWriter (Connection s) = DotWriter w"
      by (simp add: DotWriter_def w_def closeDot_idem)
    then have "Connection (WriteTextBlock s stream) = closeDot (Write (DotWriter w) stream)"
      using False by (simp add: WriteTextBlock_def Let_def)
    also have "\<dots> = w\<lparr>sent := sent w @ dot_block stream\<rparr>" by (rule write_block [OF d])
    finally have c: "Connection (WriteTextBlock s stream) = w\<lparr>sent := sent w @ dot_block stream\<rparr>" .
    with d False t show ?thesis by (simp add: w_def)
  qed
qed

theorem WriteTextBlock_bytes_witness:
  "sent (Connection (WriteTextBlock (example_session True) (''.a'' @ [lf] @ ''b''))) =
     ''Content-type: text/plain; charset=utf-8'' @ [lf]
       @ ''Content-transfer-encoding: 8bit'' @ [lf] @ [cr, lf]
       @ ''..a'' @ [cr, lf] @ ''b'' @ [cr, lf] @ [period, cr, lf]
   \<and> sent (Connection (WriteTextBlock (example_session False) (''.a'' @ [lf] @ ''b''))) =
       ''..a'' @ [cr, lf] @ ''b'' @ [cr, lf] @ [period, cr, lf]"
proof -
  have d: "dot_block (''.a'' @ [lf] @ ''b'') = ''..a'' @ [cr, lf] @ ''b'' @ [cr, lf] @ [period, cr, lf]"
    by (simp add: dot_block_def dotWriter_data_def)
  from WriteTextBlock_bytes [of "example_session True" "''.a'' @ [lf] @ ''b''"]
    WriteTextBlock_bytes [of "example_session False" "''.a'' @ [lf] @ ''b''"] d
  show ?thesis
    by (simp add: example_session_def option_value_def closeDot_def)
qed

section \<open>Properties of the dispatcher\<close>

text \<open>
  C6, as stated: the handler receives a copy of the command, so the caller's command
  value is unchanged after dispatch.  The copy shares the backing array of \<^verbatim>\<open>Params\<close>:
  after a handler has run \<^verbatim>\<open>command.Params[0] = "x"\<close> on its copy, the caller reads the
  parameter \<^verbatim>\<open>x\<close> where it had \<^verbatim>\<open>server\<close>.
\<close>

theorem handleCommand_copy_counterexample:
  "command_value (snd (new_Command \<lparr>Command = ''SHOW'', Params = [''server'']\<rparr> example_world)) 0
     = \<lparr>Command = ''SHOW'', Params = [''server'']\<rparr>
   \<and> command_value
        (handleCommand overwriting_handlers
           (snd (new_Command \<lparr>Command = ''SHOW'', Params = [''server'']\<rparr> example_world)) 0) 0
     = \<lparr>Command = ''SHOW'', Params = [''x'']\<rparr>"
  by (simp add: command_value_def new_Command_def example_world_def handleCommand_def invoke_def
      GetHandler_def example_session_def example_server_def overwriting_handlers_def Let_def)

text \<open>
  C6, amended: dispatch calls exactly one handler exactly once, the registered handler
  when the lookup of the verb succeeds and the fallback for unknown commands otherwise;
  the callee is given the session and a copy of the command struct, and what it leaves
  is the new state.  The caller's struct (the verb, and the slice \<^verbatim>\<open>Params\<close> as array and
  length) is unchanged after dispatch; the elements of \<^verbatim>\<open>Params\<close> are in the array that
  the copy shares, within the reach of the handler.
\<close>

theorem handleCommand_dispatch:
  "invoked (handleCommand run w command) =
     invoked w @ [(case GetHandler (DictServer (session w)) (commands w command) of
                     None \<Rightarrow> unknownCommandHandler
                   | Some handler \<Rightarrow> registered handler,
                   commands w command)]
   \<and> (session (handleCommand run w command), arrays (handleCommand run w command),
        extern (handleCommand run w command)) =
       run (case GetHandler (DictServer (session w)) (commands w command) of
              None \<Rightarrow> unknownCommandHandler
            | Some handler \<Rightarrow> registered handler)
           (commands w command) (session w, arrays w, extern w)
   \<and> commands (handleCommand run w command) = commands w"
  by (simp add: handleCommand_def invoke_def split: option.splits prod.splits)

section \<open>Properties of the connection loop\<close>

lemma parseLine_no_panic: "line \<noteq> [] \<Longrightarrow> parseLine ToUpper line \<noteq> Panic"
  by (auto simp: parseLine_def split: sum.splits list.splits dest: tokenizeLine_nonempty)

lemma Handle_loop_Line:
  assumes "reads n = Line l"
  shows "Handle_loop ToUpper run reads n w = Handle_loop ToUpper run reads (Suc n) (iteration ToUpper run w l)"
proof (cases "Trim l [space, lf, cr, tab] = []")
  case True
  with assms show ?thesis
    by (subst Handle_loop.simps) (simp add: iteration_def)
next
  case False
  then have np: "parseLine ToUpper (Trim l [space, lf, cr, tab]) \<noteq> Panic"
    by (rule parseLine_no_panic)
  show ?thesis
  proof (cases "parseLine ToUpper (Trim l [space, lf, cr, tab])")
    case Panic
    with np show ?thesis by simp
  next
    case (Return r)
    with assms False show ?thesis
      by (subst Handle_loop.simps) (simp add: iteration_def split: sum.splits prod.splits)
  qed
qed

lemma Handle_loop_ReadError:
  "reads n = ReadError \<Longrightarrow> Handle_loop ToUpper run reads n w = Some (Return w)"
  by (subst Handle_loop.simps) simp

lemma Handle_loop_returns:
  assumes "\<forall>i. n \<le> i \<and> i < k \<longrightarrow> reads i = Line (ls i)" and "reads k = ReadError" and "n \<le> k"
  shows "Handle_loop ToUpper run reads n w =
           Some (Return (fold (\<lambda>i w. iteration ToUpper run w (ls i)) [n..<k] w))"
  using assms
proof (induction "k - n" arbitrary: n w)
  case 0
  then have "n = k" by simp
  with "0.prems"(2) show ?case by (simp add: Handle_loop_ReadError)
next
  case (Suc d)
  then have lt: "n < k" by simp
  with Suc.prems(1) have r: "reads n = Line (ls n)" by simp
  have "Handle_loop ToUpper run reads (Suc n) (iteration ToUpper run w (ls n)) =
          Some (Return (fold (\<lambda>i w. iteration ToUpper run w (ls i)) [Suc n..<k]
                          (iteration ToUpper run w (ls n))))"
    using Suc.hyps(2) Suc.prems lt by (intro Suc.hyps(1)) auto
  then show ?case using lt r by (simp add: Handle_loop_Line [of reads n "ls n"] upt_conv_Cons)
qed

lemma Handle_loop_only_returns:
  assumes "Handle_loop ToUpper run reads n w = Some r"
  shows "r \<noteq> Panic \<and> (\<exists>k\<ge>n. reads k = ReadError \<and> (\<forall>i. n \<le> i \<and> i < k \<longrightarrow> (\<exists>l. reads i = Line l)))"
proof (rule Handle_loop.raw_induct [where P = "\<lambda>ToUpper run reads n w r.
    r \<noteq> Panic \<and> (\<exists>k\<ge>n. reads k = ReadError \<and> (\<forall>i. n \<le> i \<and> i < k \<longrightarrow> (\<exists>l. reads i = Line l)))",
    OF _ assms], goal_cases)
  case (1 loop ToUpper run reads n w r)
  note IH = "1"(1) and prems = "1"(2)
  show ?case
  proof (cases "reads n")
    case Blocked
    with prems show ?thesis by simp
  next
    case ReadError
    with prems have "r \<noteq> Panic" by auto
    moreover from ReadError have "\<exists>k\<ge>n. reads k = ReadError \<and> (\<forall>i. n \<le> i \<and> i < k \<longrightarrow> (\<exists>l. reads i = Line l))"
      by (intro exI [of _ n]) auto
    ultimately show ?thesis by simp
  next
    case (Line l)
    have "\<exists>w'. loop ToUpper run reads (Suc n) w' = Some r"
    proof (cases "Trim l [space, lf, cr, tab] = []")
      case True
      with prems Line show ?thesis by auto
    next
      case False
      with prems Line parseLine_no_panic [OF False, of ToUpper] show ?thesis
        by (auto simp: Let_def split: outcome.splits sum.splits prod.splits)
    qed
    then obtain w' where "loop ToUpper run reads (Suc n) w' = Some r" ..
    from IH [OF this] obtain k where np: "r \<noteq> Panic" and k: "Suc n \<le> k" "reads k = ReadError"
      "\<forall>i. Suc n \<le> i \<and> i < k \<longrightarrow> (\<exists>l. reads i = Line l)" by auto
    have "\<forall>i. n \<le> i \<and> i < k \<longrightarrow> (\<exists>l. reads i = Line l)"
    proof (intro allI impI)
      fix i assume "n \<le> i \<and> i < k"
      then show "\<exists>l. reads i = Line l" using k(3) Line by (cases "i = n") auto
    qed
    with np k show ?thesis by (intro conjI exI [of _ k]) auto
  qed
qed

lemma iteration_discards:
  "Trim l [space, lf, cr, tab] = [] \<or> (\<exists>e. parseLine ToUpper (Trim l [space, lf, cr, tab]) = Return (Inl e))
     \<Longrightarrow> iteration ToUpper run w l = w"
  by (auto simp: iteration_def Let_def)

text \<open>
  C7. The loop returns exactly when a read fails (having read lines until then), and it
  never panics.  When the reads before the failing one give the lines \<open>ls\<close>, it
  returns the state that the turns on these lines leave, so the failed read adds no
  call of a handler; a failed read at once returns the state as it is.  A line that was
  read never ends the loop: the loop goes on with the next read.  A line that is empty
  after trimming, and a line whose parse fails, leave the state as it is.
\<close>

theorem Handle_loop_ends_on_read_failure:
  "(Handle_loop ToUpper run reads n w \<noteq> None \<longleftrightarrow>
      (\<exists>k\<ge>n. reads k = ReadError \<and> (\<forall>i. n \<le> i \<and> i < k \<longrightarrow> (\<exists>l. reads i = Line l))))
   \<and> Handle_loop ToUpper run reads n w \<noteq> Some Panic
   \<and> ((\<forall>i. n \<le> i \<and> i < k \<longrightarrow> reads i = Line (ls i)) \<and> reads k = ReadError \<and> n \<le> k \<longrightarrow>
        Handle_loop ToUpper run reads n w =
          Some (Return (fold (\<lambda>i w. iteration ToUpper run w (ls i)) [n..<k] w)))
   \<and> (reads n = ReadError \<longrightarrow> Handle_loop ToUpper run reads n w = Some (Return w))
   \<and> (reads n = Line l \<longrightarrow>
        Handle_loop ToUpper run reads n w =
          Handle_loop ToUpper run reads (Suc n) (iteration ToUpper run w l))
   \<and> (Trim l [space, lf, cr, tab] = []
          \<or> (\<exists>e. parseLine ToUpper (Trim l [space, lf, cr, tab]) = Return (Inl e)) \<longrightarrow>
        iteration ToUpper run w l = w)"
proof (intro conjI)
  show "Handle_loop ToUpper run reads n w \<noteq> None \<longleftrightarrow>
      (\<exists>k\<ge>n. reads k = ReadError \<and> (\<forall>i. n \<le> i \<and> i < k \<longrightarrow> (\<exists>l. reads i = Line l)))"
  proof
    assume "Handle_loop ToUpper run reads n w \<noteq> None"
    then obtain r where "Handle_loop ToUpper run reads n w = Some r" by auto
    from Handle_loop_only_returns [OF this]
    show "\<exists>k\<ge>n. reads k = ReadError \<and> (\<forall>i. n \<le> i \<and> i < k \<longrightarrow> (\<exists>l. reads i = Line l))" by simp
  next
    assume "\<exists>k\<ge>n. reads k = ReadError \<and> (\<forall>i. n \<le> i \<and> i < k \<longrightarrow> (\<exists>l. reads i = Line l))"
    then obtain k where k: "n \<le> k" "reads k = ReadError"
      "\<forall>i. n \<le> i \<and> i < k \<longrightarrow> (\<exists>l. reads i = Line l)" by auto
    define ls' where "ls' i = (case reads i of Line l \<Rightarrow> l | _ \<Rightarrow> [])" for i
    have "\<forall>i. n \<le> i \<and> i < k \<longrightarrow> reads i = Line (ls' i)"
    proof (intro allI impI)
      fix i assume "n \<le> i \<and> i < k"
      with k(3) obtain l where "reads i = Line l" by blast
      then show "reads i = Line (ls' i)" by (simp add: ls'_def)
    qed
    from Handle_loop_returns [OF this k(2) k(1), of ToUpper run w]
    show "Handle_loop ToUpper run reads n w \<noteq> None" by simp
  qed
  show "Handle_loop ToUpper run reads n w \<noteq> Some Panic"
    using Handle_loop_only_returns [of ToUpper run reads n w Panic] by auto
  show "(\<forall>i. n \<le> i \<and> i < k \<longrightarrow> reads i = Line (ls i)) \<and> reads k = ReadError \<and> n \<le> k \<longrightarrow>
        Handle_loop ToUpper run reads n w =
          Some (Return (fold (\<lambda>i w. iteration ToUpper run w (ls i)) [n..<k] w))"
    using Handle_loop_returns [of n k reads ls ToUpper run w] by blast
  show "reads n = ReadError \<longrightarrow> Handle_loop ToUpper run reads n w = Some (Return w)"
    by (simp add: Handle_loop_ReadError)
  show "reads n = Line l \<longrightarrow>
        Handle_loop ToUpper run reads n w =
          Handle_loop ToUpper run reads (Suc n) (iteration ToUpper run w l)"
    using Handle_loop_Line [of reads n l ToUpper run w] by blast
  show "Trim l [space, lf, cr, tab] = []
          \<or> (\<exists>e. parseLine ToUpper (Trim l [space, lf, cr, tab]) = Return (Inl e)) \<longrightarrow>
        iteration ToUpper run w l = w"
    using iteration_discards [of l ToUpper run w] by blast
qed

lemma example_iterations:
  "iteration ToUpper_ascii idle_handlers example_world ''  '' = example_world"
  "iteration ToUpper_ascii idle_handlers example_world ([dquote] @ ''a'' @ [squote]) = example_world"
  "invoked (iteration ToUpper_ascii idle_handlers example_world ''show server'')
     = [(registered 0, \<lparr>Command = ''SHOW'', Params = \<lparr>array = 0, len = 1\<rparr>\<rparr>)]"
  by (simp_all add: iteration_def parseLine_def tokenizer_eval ToUpper_ascii_def upper_byte_def
      new_Command_def handleCommand_def invoke_def GetHandler_def idle_handlers_def
      example_world_def example_session_def example_server_def)

theorem Handle_loop_ends_on_read_failure_witness:
  "example_reads 3 = ReadError
   \<and> (\<exists>w'. Handle_loop ToUpper_ascii idle_handlers example_reads 0 example_world = Some (Return w')
         \<and> invoked w' = [(registered 0, \<lparr>Command = ''SHOW'', Params = \<lparr>array = 0, len = 1\<rparr>\<rparr>)])
   \<and> Handle_loop ToUpper_ascii idle_handlers (\<lambda>i. Line ''show'') 0 example_world = None"
proof -
  define ls where "ls i = (case example_reads i of Line l \<Rightarrow> l | _ \<Rightarrow> [])" for i
  have a: "\<forall>i. 0 \<le> i \<and> i < 3 \<longrightarrow> example_reads i = Line (ls i)"
    by (simp add: ls_def example_reads_def)
  have b: "example_reads 3 = ReadError" by (simp add: example_reads_def)
  have u: "[0..<3] = [0, 1, 2::nat]" by (simp add: upt_rec)
  have l: "ls 0 = ''  ''" "ls 1 = [dquote] @ ''a'' @ [squote]" "ls 2 = ''show server''"
    by (simp_all add: ls_def example_reads_def)
  from Handle_loop_ends_on_read_failure [of ToUpper_ascii idle_handlers example_reads 0 example_world 3 ls] a b
  have "Handle_loop ToUpper_ascii idle_handlers example_reads 0 example_world =
          Some (Return (fold (\<lambda>i w. iteration ToUpper_ascii idle_handlers w (ls i)) [0..<3] example_world))"
    by blast
  then have c: "Handle_loop ToUpper_ascii idle_handlers example_reads 0 example_world =
          Some (Return (iteration ToUpper_ascii idle_handlers example_world ''show server''))"
    by (simp only: u fold_simps l example_iterations o_apply id_apply)
  have "\<not> (\<exists>k\<ge>0. (\<lambda>i. Line ''show'') k = ReadError
          \<and> (\<forall>i. 0 \<le> i \<and> i < k \<longrightarrow> (\<exists>l. (\<lambda>i. Line ''show'') i = Line l)))"
    by simp
  with Handle_loop_ends_on_read_failure [of ToUpper_ascii idle_handlers "\<lambda>i. Line ''show''" 0 example_world]
  have d: "Handle_loop ToUpper_ascii idle_handlers (\<lambda>i. Line ''show'') 0 example_world = None"
    by blast
  from b c d example_iterations(3) show ?thesis by simp
qed

end
